theory Spec2Isabelle
  imports Main
begin

section \<open>JavaScript values and string primitives\<close>

text \<open>
  A JavaScript string is modelled as a \<^typ>\<open>string\<close>, one \<^typ>\<open>char\<close> per code unit (the
  8-bit \<^typ>\<open>char\<close> covers the Latin-1 range of code units). Every string operation the
  program uses (\<open>split\<close>, \<open>join\<close>, \<open>indexOf\<close>, \<open>includes\<close>, \<open>slice\<close>, \<open>startsWith\<close>,
  \<open>charAt\<close>) works code unit by code unit, so it is a list function here.
  Line and column numbers are JavaScript numbers that only ever hold integers or
  \<open>Infinity\<close>; they are \<^typ>\<open>int\<close>, and \<open>jsnum\<close> where \<open>Infinity\<close> can occur.
\<close>

datatype jsnum = Num int | Infinity

fun js_min :: "jsnum \<Rightarrow> jsnum \<Rightarrow> jsnum" where
  "js_min Infinity y = y"
| "js_min (Num a) Infinity = Num a"
| "js_min (Num a) (Num b) = Num (min a b)"

fun js_max :: "jsnum \<Rightarrow> jsnum \<Rightarrow> jsnum" where
  "js_max Infinity y = Infinity"
| "js_max (Num a) Infinity = Infinity"
| "js_max (Num a) (Num b) = Num (max a b)"

text \<open>\<open>Math.min(...xs)\<close>; with no argument it is \<open>Infinity\<close>.\<close>

definition Math_min :: "jsnum list \<Rightarrow> jsnum" where
  "Math_min xs = foldr js_min xs Infinity"

text \<open>\<open>x - 1\<close> on a number that may be \<open>Infinity\<close>.\<close>

fun js_pred :: "jsnum \<Rightarrow> jsnum" where
  "js_pred Infinity = Infinity"
| "js_pred (Num a) = Num (a - 1)"

text \<open>
  A position argument is clamped to the range \<open>0 .. length\<close>
  (what \<open>indexOf\<close> does with its second argument, and \<open>Math.min(caret, line.length)\<close>
  followed by a loop from 0).
\<close>

fun clampIndex :: "jsnum \<Rightarrow> nat \<Rightarrow> nat" where
  "clampIndex Infinity len = len"
| "clampIndex (Num a) len = min (nat a) len"

text \<open>The index of the first occurrence of \<open>pat\<close> in \<open>s\<close>, if any.\<close>

fun find_sub :: "string \<Rightarrow> string \<Rightarrow> nat option" where
  "find_sub pat [] = (if pat = [] then Some 0 else None)"
| "find_sub pat (c # cs) =
     (if take (length pat) (c # cs) = pat then Some 0
      else map_option Suc (find_sub pat cs))"

text \<open>\<open>s.indexOf(pat, pos)\<close>; \<open>None\<close> is the result \<open>-1\<close>.\<close>

definition indexOf :: "string \<Rightarrow> string \<Rightarrow> nat \<Rightarrow> nat option" where
  "indexOf s pat pos =
     (let start = min pos (length s)
      in map_option (\<lambda>k. start + k) (find_sub pat (drop start s)))"

definition includesStr :: "string \<Rightarrow> string \<Rightarrow> bool" where
  "includesStr s pat = (indexOf s pat 0 \<noteq> None)"

definition startsWith :: "string \<Rightarrow> string \<Rightarrow> bool" where
  "startsWith s pat = (take (length pat) s = pat)"

text \<open>\<open>s.slice(a, b)\<close> for non-negative \<open>a\<close> and \<open>b\<close>; \<open>s.slice(a)\<close> is \<^term>\<open>drop a s\<close>.\<close>

definition slice :: "string \<Rightarrow> nat \<Rightarrow> nat \<Rightarrow> string" where
  "slice s a b = take (b - a) (drop a s)"

text \<open>\<open>s.split(sep)\<close> for a separator of one code unit.\<close>

fun split_char :: "char \<Rightarrow> string \<Rightarrow> string list" where
  "split_char sep [] = [[]]"
| "split_char sep (c # cs) =
     (if c = sep then [] # split_char sep cs
      else (case split_char sep cs of
              [] \<Rightarrow> [[c]]
            | l # ls \<Rightarrow> (c # l) # ls))"

text \<open>\<open>s.split(pat)[0]\<close> for a non-empty separator: the text before its first occurrence.\<close>

definition split_first :: "string \<Rightarrow> string \<Rightarrow> string" where
  "split_first s pat = (case indexOf s pat 0 of None \<Rightarrow> s | Some k \<Rightarrow> take k s)"

text \<open>\<open>xs.join(sep)\<close>.\<close>

fun join :: "string \<Rightarrow> string list \<Rightarrow> string" where
  "join sep [] = []"
| "join sep [x] = x"
| "join sep (x # y # ys) = x @ sep @ join sep (y # ys)"

text \<open>\<open>xs[i]\<close>, \<open>undefined\<close> out of range.\<close>

definition nth_opt :: "'a list \<Rightarrow> nat \<Rightarrow> 'a option" where
  "nth_opt xs i = (if i < length xs then Some (xs ! i) else None)"

text \<open>Truthiness of a value that is a string or \<open>undefined\<close>.\<close>

fun truthy :: "string option \<Rightarrow> bool" where
  "truthy None = False"
| "truthy (Some s) = (s \<noteq> [])"

text \<open>
  White space and line terminators of ECMAScript within the Latin-1 range: what
  \<open>trim\<close> removes at both ends and \<open>parseInt\<close> skips at the start.
\<close>

definition isWhiteSpace :: "char \<Rightarrow> bool" where
  "isWhiteSpace c = (c \<in> set [CHR 0x09, CHR 0x0A, CHR 0x0B, CHR 0x0C, CHR 0x0D, CHR 0x20, CHR 0xA0])"


definition digitVal :: "char \<Rightarrow> nat option" where
  "digitVal c = find_sub [c] ''0123456789''"

definition isDigit :: "char \<Rightarrow> bool" where
  "isDigit c = (digitVal c \<noteq> None)"

fun digitsVal :: "nat \<Rightarrow> string \<Rightarrow> nat" where
  "digitsVal acc [] = acc"
| "digitsVal acc (c # cs) = digitsVal (10 * acc + (case digitVal c of None \<Rightarrow> 0 | Some d \<Rightarrow> d)) cs"

text \<open>
  \<open>parseInt(s, 10)\<close>: leading white space is skipped, a sign is read, then the longest
  run of decimal digits; \<open>None\<close> is \<open>NaN\<close> (no digit). The value is the exact integer:
  the rounding of literals beyond \<open>2^53\<close> is not modelled.
\<close>

definition parseInt :: "string \<Rightarrow> int option" where
  "parseInt s =
     (let t = dropWhile isWhiteSpace s;
          neg = (t \<noteq> [] \<and> hd t = CHR ''-'');
          u = (if t \<noteq> [] \<and> (hd t = CHR ''-'' \<or> hd t = CHR ''+'') then tl t else t);
          ds = takeWhile isDigit u
      in if ds = [] then None
         else Some (if neg then - int (digitsVal 0 ds) else int (digitsVal 0 ds)))"

text \<open>\<open>String(n)\<close> for an integer \<open>n\<close> (below \<open>10^21\<close> in size, where JavaScript still
  prints plain decimal digits).\<close>

fun showNat :: "nat \<Rightarrow> string" where
  "showNat n = (if n < 10 then [''0123456789'' ! n]
                else showNat (n div 10) @ [''0123456789'' ! (n mod 10)])"

declare showNat.simps [simp del]

definition showInt :: "int \<Rightarrow> string" where
  "showInt i = (if i < 0 then CHR ''-'' # showNat (nat (- i)) else showNat (nat i))"


section \<open>The log protocol\<close>

record LogEntry =
  filePath :: string
  line :: int
  column :: "int option"
  result :: string

definition delimiter :: string where
  "delimiter = '' :: ''"

text \<open>
  \<open>path.relative\<close>, \<open>path.resolve\<close>, \<open>encodeURIComponent\<close>, \<open>decodeURIComponent\<close> and
  \<open>util.inspect\<close> belong to the platform, not to this program: they are parameters.
  \<open>decodeURIComponent\<close> throws \<open>URIError\<close> on a malformed escape, which is the value
  \<open>None\<close> of the parameter and the error \<open>URIError\<close> of the caller.
\<close>

datatype error = URIError

definition stringifyLogEntry ::
  "(string \<Rightarrow> string \<Rightarrow> string) \<Rightarrow> (string \<Rightarrow> string) \<Rightarrow> string \<Rightarrow> LogEntry \<Rightarrow> string" where
  "stringifyLogEntry relative encodeURIComponent logFilePath entry =
     (let relativeFilePath = relative logFilePath (filePath entry);
          locationParts =
            (case column entry of
               None \<Rightarrow> [relativeFilePath, showInt (line entry)]
             | Some c \<Rightarrow> [relativeFilePath, showInt (line entry), showInt c]);
          location = join '':'' locationParts
      in location @ delimiter @ encodeURIComponent (result entry))"

record FileLocation =
  path :: string
  fl_line :: int
  fl_column :: "int option"

text \<open>The three states of \<open>column\<close> inside \<open>parseFileLocationFromString\<close>.\<close>

datatype jsval = Undefined | NaN | Number int

definition parseFileLocationFromString :: "string \<Rightarrow> FileLocation option" where
  "parseFileLocationFromString location =
     (let parts = split_char CHR '':'' location;
          rawFilePath = nth_opt parts 0;
          lineStr = nth_opt parts 1;
          columnStr = nth_opt parts 2
      in if \<not> (truthy rawFilePath \<and> truthy lineStr) then None
         else
           (case (rawFilePath, lineStr) of
              (Some raw, Some ls) \<Rightarrow>
                (let p = split_first raw ''?''
                 in case parseInt ls of
                      None \<Rightarrow> None
                    | Some ln \<Rightarrow>
                        (let col = (case columnStr of
                                      None \<Rightarrow> Undefined
                                    | Some cs \<Rightarrow>
                                        if cs = [] then Undefined
                                        else (case parseInt cs of None \<Rightarrow> NaN | Some n \<Rightarrow> Number n))
                         in case col of
                              Number n \<Rightarrow> Some \<lparr>path = p, fl_line = ln, fl_column = Some n\<rparr>
                            | _ \<Rightarrow> None))
            | _ \<Rightarrow> None))"

definition parseLogEntry ::
  "(string \<Rightarrow> string \<Rightarrow> string) \<Rightarrow> (string \<Rightarrow> string option) \<Rightarrow> string \<Rightarrow> string
     \<Rightarrow> error + LogEntry option" where
  "parseLogEntry resolve decodeURIComponent logFilePath log =
     (case indexOf log delimiter 0 of
        None \<Rightarrow> Inr None
      | Some delimiterIndex \<Rightarrow>
          (let location = slice log 0 delimiterIndex;
               encodedResult = drop (delimiterIndex + length delimiter) log
           in case decodeURIComponent encodedResult of
                None \<Rightarrow> Inl URIError
              | Some res \<Rightarrow>
                  (case parseFileLocationFromString location of
                     None \<Rightarrow> Inr None
                   | Some loc \<Rightarrow>
                       Inr (Some \<lparr>filePath = resolve logFilePath (path loc),
                                  line = fl_line loc,
                                  column = fl_column loc,
                                  result = res\<rparr>))))"










section \<open>The rewrite engine\<close>

definition commentStart :: string where
  "commentStart = ''//=>''"

definition trailingCommentStart :: string where
  "trailingCommentStart = '' '' @ commentStart"

text \<open>The function that \<open>stripTrailingLogComments\<close> maps over the lines.\<close>

definition stripLine :: "string \<Rightarrow> string" where
  "stripLine l =
     (if includesStr l trailingCommentStart then split_first l trailingCommentStart else l)"

definition stripTrailingLogComments :: "string \<Rightarrow> string" where
  "stripTrailingLogComments content =
     join [CHR 0x0A] (map stripLine (split_char CHR 0x0A content))"

definition multiLineCommentStart :: string where
  "multiLineCommentStart = ''/*=>''"

definition multiLineCommentEnd :: string where
  "multiLineCommentEnd = ''*/'' @ [CHR 0x0A]"

lemma find_sub_bound: "find_sub pat s = Some k \<Longrightarrow> k + length pat \<le> length s"
proof (induction s arbitrary: k)
  case Nil
  then show ?case by (simp split: if_splits)
next
  case (Cons c cs)
  show ?case
  proof (cases "take (length pat) (c # cs) = pat")
    case True
    from arg_cong [OF True, of length] have "length pat \<le> length (c # cs)"
      by simp
    with True Cons.prems show ?thesis by simp
  next
    case False
    with Cons.prems obtain j where "find_sub pat cs = Some j" "k = Suc j"
      by auto
    with Cons.IH show ?thesis by auto
  qed
qed

lemma indexOf_bounds:
  assumes "indexOf s pat pos = Some k"
  shows "min pos (length s) \<le> k" and "k + length pat \<le> length s"
proof -
  from assms obtain j where j: "find_sub pat (drop (min pos (length s)) s) = Some j"
    and k: "k = min pos (length s) + j"
    by (auto simp: indexOf_def Let_def)
  show "min pos (length s) \<le> k" using k by simp
  from find_sub_bound [OF j] show "k + length pat \<le> length s" using k by auto
qed

text \<open>
  The loop of \<open>stripMultiLineLogComments\<close>: \<open>i\<close> is the read position and
  \<open>strippedContent\<close> the text kept so far.
\<close>

function stripMultiLineLoop :: "string \<Rightarrow> nat \<Rightarrow> string \<Rightarrow> string" where
  "stripMultiLineLoop content i strippedContent =
     (if i < length content then
        (case indexOf content multiLineCommentStart i of
           None \<Rightarrow> strippedContent @ drop i content
         | Some commentStartIndex \<Rightarrow>
             (case indexOf content multiLineCommentEnd commentStartIndex of
                None \<Rightarrow> strippedContent @ drop i content
              | Some commentEndIndex \<Rightarrow>
                  stripMultiLineLoop content
                    (commentEndIndex + length multiLineCommentEnd)
                    (strippedContent @ slice content i commentStartIndex)))
      else strippedContent)"
  by pat_completeness auto
termination
proof (relation "measure (\<lambda>(content, i, acc). length content - i)")
  show "wf (measure (\<lambda>(content, i, acc). length content - i))" by simp
next
  fix content :: string and i :: nat and strippedContent :: string and x2 x2a
  assume lt: "i < length content"
    and a: "indexOf content multiLineCommentStart i = Some x2"
    and b: "indexOf content multiLineCommentEnd x2 = Some x2a"
  from indexOf_bounds(1) [OF a] lt have "i \<le> x2" by simp
  moreover from indexOf_bounds(1) [OF b] indexOf_bounds(2) [OF a] have "x2 \<le> x2a"
    by (simp add: multiLineCommentStart_def)
  ultimately show "((content, x2a + length multiLineCommentEnd,
                     strippedContent @ slice content i x2),
                    (content, i, strippedContent))
                   \<in> measure (\<lambda>(content, i, acc). length content - i)"
    using lt by (simp add: multiLineCommentEnd_def)
qed

declare stripMultiLineLoop.simps [simp del]

definition stripMultiLineLogComments :: "string \<Rightarrow> string" where
  "stripMultiLineLogComments content = stripMultiLineLoop content 0 []"

definition stripLogEntriesFromFileContent :: "string \<Rightarrow> string" where
  "stripLogEntriesFromFileContent content =
     stripMultiLineLogComments (stripTrailingLogComments content)"

text \<open>
  The inner loop of \<open>findCallEndLineIndex\<close> over the code units of one line, from the
  search column on: \<open>Closed\<close> when the depth reached 0 (the function returns the line's
  index), otherwise the depth at the end of the line.
\<close>

datatype scan_result = Closed | Open int

fun scanLine :: "string \<Rightarrow> int \<Rightarrow> scan_result" where
  "scanLine [] parenDepth = Open parenDepth"
| "scanLine (ch # rest) parenDepth =
     (let d = (if ch = CHR ''('' then parenDepth + 1
               else if ch = CHR '')'' then parenDepth - 1
               else parenDepth)
      in if d = 0 then Closed else scanLine rest d)"

text \<open>The outer loop, over the lines from index \<open>i\<close> on.\<close>

fun scanLines :: "string list \<Rightarrow> nat \<Rightarrow> nat \<Rightarrow> int \<Rightarrow> nat option" where
  "scanLines [] i searchColumnIndex parenDepth = None"
| "scanLines (currentLine # rest) i searchColumnIndex parenDepth =
     (case scanLine (drop searchColumnIndex currentLine) parenDepth of
        Closed \<Rightarrow> Some i
      | Open d \<Rightarrow> scanLines rest (i + 1) 0 d)"

text \<open>
  \<open>findCallEndLineIndex({line, column}, lines)\<close>. \<open>lines[index]\<close> is \<open>undefined\<close> outside
  the array, and \<open>!line\<close> also holds for the empty line.
\<close>

definition findCallEndLineIndex :: "int \<Rightarrow> jsnum \<Rightarrow> string list \<Rightarrow> nat option" where
  "findCallEndLineIndex startLine startColumn lines =
     (let index = startLine - 1
      in if index < 0 then None
         else
           (case nth_opt lines (nat index) of
              None \<Rightarrow> None
            | Some ln \<Rightarrow>
                if ln = [] then None
                else
                  (case indexOf ln ''('' (clampIndex startColumn (length ln)) of
                     None \<Rightarrow> None
                   | Some parenStartIndex \<Rightarrow>
                       (if parenStartIndex + 1 = length ln
                        then scanLines (drop (nat index + 1) lines) (nat index + 1) 0 1
                        else scanLines (drop (nat index) lines) (nat index)
                               (parenStartIndex + 1) 1))))"

text \<open>
  The search as the specification words it, to be compared with
  \<open>findCallEndLineIndex\<close>. \<open>spec_openParen\<close> is the first \<open>(\<close> of the anchor line at or
  after the anchor column (the column's value taken as a string index, as \<open>indexOf\<close>
  takes it). \<open>spec_textAfter\<close> is the text from just past that \<open>(\<close> to the end of the
  text, across line boundaries, each code unit with the index of its line.
  \<open>spec_depth\<close> is the parenthesis depth after a stretch of text, starting at 1.
  \<open>spec_callEnd\<close> is the line of the first position where the depth is back to 0.
\<close>

definition spec_openParen :: "string \<Rightarrow> jsnum \<Rightarrow> nat option" where
  "spec_openParen ln anchor =
     (let a = clampIndex anchor (length ln)
      in if CHR ''('' \<in> set (drop a ln)
         then Some (a + length (takeWhile (\<lambda>c. c \<noteq> CHR ''('') (drop a ln)))
         else None)"

definition spec_textAfter :: "string list \<Rightarrow> nat \<Rightarrow> nat \<Rightarrow> (nat \<times> char) list" where
  "spec_textAfter lines i p =
     map (Pair i) (drop (p + 1) (lines ! i))
     @ concat (map (\<lambda>j. map (Pair j) (lines ! j)) [i + 1 ..< length lines])"

definition spec_depth :: "string \<Rightarrow> int" where
  "spec_depth cs =
     1 + int (length (filter (\<lambda>c. c = CHR ''('') cs))
       - int (length (filter (\<lambda>c. c = CHR '')'') cs))"

definition spec_callEnd :: "(nat \<times> char) list \<Rightarrow> nat option" where
  "spec_callEnd ps =
     map_option (\<lambda>k. fst (ps ! k))
       (List.find (\<lambda>k. spec_depth (map snd (take (Suc k) ps)) = 0) [0 ..< length ps])"

definition spec_findCallEnd :: "int \<Rightarrow> jsnum \<Rightarrow> string list \<Rightarrow> nat option" where
  "spec_findCallEnd startLine anchor lines =
     (if 1 \<le> startLine \<and> startLine \<le> int (length lines) then
        (case spec_openParen (lines ! nat (startLine - 1)) anchor of
           None \<Rightarrow> None
         | Some p \<Rightarrow> spec_callEnd (spec_textAfter lines (nat (startLine - 1)) p))
      else None)"

text \<open>
  Two auxiliary functions of the proof that \<open>findCallEndLineIndex\<close> computes
  \<open>spec_findCallEnd\<close>: the scan of the program over a text given as code units with
  their line indices, and the depth after a stretch of text from a starting depth.
\<close>

fun scanFlat :: "(nat \<times> char) list \<Rightarrow> int \<Rightarrow> nat option" where
  "scanFlat [] d = None"
| "scanFlat ((j, ch) # ps) d =
     (let d' = (if ch = CHR ''('' then d + 1 else if ch = CHR '')'' then d - 1 else d)
      in if d' = 0 then Some j else scanFlat ps d')"

definition depthFrom :: "int \<Rightarrow> string \<Rightarrow> int" where
  "depthFrom d cs = d - 1 + spec_depth cs"

definition prefixLines :: "string \<Rightarrow> string \<Rightarrow> string" where
  "prefixLines txt prefix =
     join [CHR 0x0A] (map (\<lambda>l. prefix @ l) (split_char CHR 0x0A txt))"

definition backtrackIndent :: "string \<Rightarrow> jsnum \<Rightarrow> string" where
  "backtrackIndent ln caret =
     map (\<lambda>c. if c = CHR 0x09 then CHR 0x09 else CHR '' '')
         (take (clampIndex caret (length ln)) ln)"

text \<open>
  \<open>Object.entries(lineEntries)\<close>: one group per distinct line number, the entries of a
  group in call order. JavaScript lists the keys that are array indices
  (\<open>0 .. 2^32 - 2\<close>) first, in ascending order, then the other keys in the order of
  their first insertion.
\<close>

definition isArrayIndex :: "int \<Rightarrow> bool" where
  "isArrayIndex k = (0 \<le> k \<and> k < 4294967295)"

definition lineKeys :: "LogEntry list \<Rightarrow> int list" where
  "lineKeys entries =
     (let ks = rev (remdups (rev (map line entries)))
      in sort (filter isArrayIndex ks) @ filter (\<lambda>k. \<not> isArrayIndex k) ks)"

definition lineEntries :: "LogEntry list \<Rightarrow> (int \<times> LogEntry list) list" where
  "lineEntries entries =
     map (\<lambda>k. (k, filter (\<lambda>e. line e = k) entries)) (lineKeys entries)"

text \<open>\<open>e.column || Infinity\<close>: an absent column and the column 0 are both falsy.\<close>

definition columnOrInfinity :: "LogEntry \<Rightarrow> jsnum" where
  "columnOrInfinity e =
     (case column e of None \<Rightarrow> Infinity | Some c \<Rightarrow> if c = 0 then Infinity else Num c)"

text \<open>
  For the statement about the anchor column: the columns of a group that count as
  known, that is, present and not 0, in the order of the entries.
\<close>

definition knownColumns :: "LogEntry list \<Rightarrow> int list" where
  "knownColumns entries =
     concat (map (\<lambda>e. case column e of None \<Rightarrow> [] | Some c \<Rightarrow> if c = 0 then [] else [c])
                 entries)"

definition leftMostColumn :: "LogEntry list \<Rightarrow> jsnum" where
  "leftMostColumn entries = js_max (Num 1) (Math_min (map columnOrInfinity entries))"

text \<open>The loop that overwrites the lines of an old block with the marker, from \<open>i\<close> on.\<close>

function clearLoop :: "string \<Rightarrow> string list \<Rightarrow> nat \<Rightarrow> string list" where
  "clearLoop clearLineMarker lines i =
     (if i < length lines then
        (let commentLine = lines ! i;
             lines' = lines[i := clearLineMarker]
         in if includesStr commentLine ''*/'' then lines'
            else clearLoop clearLineMarker lines' (i + 1))
      else lines)"
  by pat_completeness auto
termination
  by (relation "measure (\<lambda>(m, lines, i). length lines - i)") auto

declare clearLoop.simps [simp del]

text \<open>
  One iteration of the loop over the groups in \<open>applyLogEntriesToFileContent\<close>:
  \<open>lines\<close> is the array being rewritten, \<open>continue\<close> returns it unchanged.
\<close>

definition applyGroup ::
  "string \<Rightarrow> string list \<Rightarrow> int \<times> LogEntry list \<Rightarrow> string list" where
  "applyGroup clearLineMarker lines g =
     (let lineNumber = fst g;
          entries = snd g;
          leftMost = leftMostColumn entries
      in case findCallEndLineIndex lineNumber leftMost lines of
           None \<Rightarrow> lines
         | Some index \<Rightarrow>
             (case nth_opt lines index of
                None \<Rightarrow> lines
              | Some ln \<Rightarrow>
                  if ln = [] then lines
                  else
                    (let originalLine = split_first ln trailingCommentStart;
                         multiLineResult = list_ex (\<lambda>e. includesStr (result e) [CHR 0x0A]) entries
                     in if multiLineResult then
                          (let resultIndent = length multiLineCommentStart + 1;
                               resultIndentation = replicate resultIndent CHR '' '';
                               results =
                                 drop resultIndent
                                   (prefixLines (join ('','' @ [CHR 0x0A]) (map result entries))
                                      resultIndentation);
                               commentIndent = backtrackIndent ln (js_pred leftMost);
                               lines1 =
                                 lines[index :=
                                   originalLine @ [CHR 0x0A]
                                   @ prefixLines
                                       (multiLineCommentStart @ '' '' @ results
                                        @ [CHR 0x0A] @ ''*/'')
                                       commentIndent]
                           in case nth_opt lines1 (index + 1) of
                                None \<Rightarrow> lines1
                              | Some nextLine \<Rightarrow>
                                  if nextLine \<noteq> [] \<and> includesStr nextLine multiLineCommentStart
                                  then clearLoop clearLineMarker
                                         (lines1[index + 1 := clearLineMarker]) (index + 2)
                                  else lines1)
                        else
                          lines[index :=
                            originalLine @ trailingCommentStart @ '' ''
                            @ join '', '' (map result entries)])))"









text \<open>
  \<open>applyLogEntriesToFileContent\<close>. The marker is the value of \<open>randomUUID()\<close>, a
  parameter here: a string of 36 code units (hexadecimal digits and hyphens) drawn at
  random for each run.
\<close>

definition applyLogEntriesToFileContent ::
  "string \<Rightarrow> string \<Rightarrow> LogEntry list \<Rightarrow> string" where
  "applyLogEntriesToFileContent clearLineMarker content entries =
     join [CHR 0x0A]
       (filter (\<lambda>l. l \<noteq> clearLineMarker)
          (foldl (applyGroup clearLineMarker) (split_char CHR 0x0A content)
             (lineEntries entries)))"

section \<open>Facts about the string primitives\<close>

lemma split_char_nonempty: "split_char sep s \<noteq> []"
  by (induction s) (auto split: list.splits)

lemma join_Cons: "ys \<noteq> [] \<Longrightarrow> join sep (x # ys) = x @ sep @ join sep ys"
  by (cases ys) auto

lemma join_Cons_head: "join sep ((c # l) # ls) = c # join sep (l # ls)"
  by (cases ls) auto

lemma join_split_char: "join [sep] (split_char sep s) = s"
proof (induction s)
  case Nil
  show ?case by simp
next
  case (Cons c cs)
  obtain l ls where ls: "split_char sep cs = l # ls"
    using split_char_nonempty [of sep cs] by (cases "split_char sep cs") auto
  show ?case
  proof (cases "c = sep")
    case True
    then show ?thesis using Cons.IH ls by (simp add: join_Cons)
  next
    case False
    then show ?thesis using Cons.IH ls by (simp add: join_Cons_head)
  qed
qed








lemma find_sub_Some:
  "find_sub pat s = Some k \<Longrightarrow> take (length pat) (drop k s) = pat \<and> k + length pat \<le> length s"
proof (induction s arbitrary: k)
  case Nil
  then show ?case by (simp split: if_splits)
next
  case (Cons c cs)
  show ?case
  proof (cases "take (length pat) (c # cs) = pat")
    case True
    from arg_cong [OF True, of length] have "length pat \<le> length (c # cs)" by simp
    with True Cons.prems show ?thesis by simp
  next
    case False
    with Cons.prems obtain j where j: "find_sub pat cs = Some j" "k = Suc j" by auto
    with Cons.IH [OF j(1)] show ?thesis by simp
  qed
qed


lemma find_sub_None:
  "find_sub pat s = None \<Longrightarrow> take (length pat) (drop j s) \<noteq> pat \<or> length s < j + length pat"
proof (induction s arbitrary: j)
  case Nil
  then show ?case by (auto split: if_splits)
next
  case (Cons c cs)
  from Cons.prems have nf: "take (length pat) (c # cs) \<noteq> pat" and n: "find_sub pat cs = None"
    by (auto split: if_splits)
  show ?case
  proof (cases j)
    case 0
    with nf show ?thesis by simp
  next
    case (Suc j')
    from Cons.IH [OF n, of j'] Suc show ?thesis by auto
  qed
qed

lemma find_sub_append_None: "find_sub pat (a @ pat @ b) \<noteq> None"
proof
  assume "find_sub pat (a @ pat @ b) = None"
  from find_sub_None [OF this, of "length a"] show False by simp
qed

lemma includesStr_iff: "includesStr s pat \<longleftrightarrow> (\<exists>a b. s = a @ pat @ b)"
proof
  assume "includesStr s pat"
  then obtain k where k: "find_sub pat s = Some k"
    by (auto simp: includesStr_def indexOf_def)
  from find_sub_Some [OF k] have "s = take k s @ pat @ drop (k + length pat) s"
    by (metis append_take_drop_id drop_drop add.commute)
  then show "\<exists>a b. s = a @ pat @ b" by blast
next
  assume "\<exists>a b. s = a @ pat @ b"
  then show "includesStr s pat"
    using find_sub_append_None by (auto simp: includesStr_def indexOf_def)
qed




lemma lineEntries_Nil: "lineEntries [] = []"
  by (simp add: lineEntries_def lineKeys_def)

text \<open>
  Claim C10. Applying an empty entry set is the identity: \<open>apply(T, []) = T\<close>, code unit
  for code unit. The only thing the function does to the lines of \<open>T\<close> is to drop those
  equal to the marker of the run, a fresh random UUID; the statement holds for every
  marker that is not itself a line of \<open>T\<close>.
\<close>

theorem apply_no_entries:
  assumes "clearLineMarker \<notin> set (split_char CHR 0x0A T)"
  shows "applyLogEntriesToFileContent clearLineMarker T [] = T"
proof -
  have "filter (\<lambda>l. l \<noteq> clearLineMarker) (split_char CHR 0x0A T) = split_char CHR 0x0A T"
    using assms by (intro filter_True) auto
  then show ?thesis
    by (simp add: applyLogEntriesToFileContent_def lineEntries_Nil join_split_char)
qed

theorem apply_no_entries_witness:
  "''123e4567-e89b-42d3-a456-426614174000'' \<notin> set (split_char CHR 0x0A (''p(x)'' @ [CHR 0x0A] @ ''q(y)''))
   \<and> applyLogEntriesToFileContent ''123e4567-e89b-42d3-a456-426614174000''
         (''p(x)'' @ [CHR 0x0A] @ ''q(y)'') [] = ''p(x)'' @ [CHR 0x0A] @ ''q(y)''"
proof -
  have h: "''123e4567-e89b-42d3-a456-426614174000'' \<notin> set (split_char CHR 0x0A (''p(x)'' @ [CHR 0x0A] @ ''q(y)''))"
    by simp
  show ?thesis using h apply_no_entries [OF h] by simp
qed



section \<open>Stripping annotations\<close>













section \<open>The anchor column\<close>

lemma Math_min_Cons: "Math_min (x # xs) = js_min x (Math_min xs)"
  by (simp add: Math_min_def)

lemma Math_min_columns:
  "Math_min (map columnOrInfinity es) =
     (if knownColumns es = [] then Infinity else Num (Min (set (knownColumns es))))"
proof (induction es)
  case Nil
  show ?case by (simp add: Math_min_def knownColumns_def)
next
  case (Cons e es)
  have kc: "knownColumns (e # es) =
      (case column e of None \<Rightarrow> [] | Some c \<Rightarrow> if c = 0 then [] else [c]) @ knownColumns es"
    by (simp add: knownColumns_def)
  show ?case
  proof (cases "columnOrInfinity e")
    case Infinity
    then have "knownColumns (e # es) = knownColumns es"
      by (auto simp: kc columnOrInfinity_def split: option.splits if_splits)
    with Infinity Cons.IH show ?thesis by (simp add: Math_min_Cons)
  next
    case (Num c)
    then have k: "knownColumns (e # es) = c # knownColumns es"
      by (auto simp: kc columnOrInfinity_def split: option.splits if_splits)
    show ?thesis
    proof (cases "knownColumns es = []")
      case True
      with Num Cons.IH k show ?thesis by (simp add: Math_min_Cons)
    next
      case False
      with Num Cons.IH k show ?thesis by (simp add: Math_min_Cons)
    qed
  qed
qed

lemma findCallEnd_Infinity: "findCallEndLineIndex ln Infinity lines = None"
  by (auto simp: findCallEndLineIndex_def Let_def indexOf_def split: option.splits)

text \<open>
  Claim C4 (amended). The anchor column of a group is the larger of 1 and the smallest
  column among the entries whose column is known and not 0 (an absent column and the
  column 0 are both left out of the minimum); for columns from 1 on it is the leftmost
  known column. When no entry of the group has such a column, the anchor is \<open>Infinity\<close>,
  not 1: no \<open>(\<close> is found from there and the group is discarded, the lines unchanged.
\<close>

theorem anchor_column:
  "leftMostColumn es =
     (if knownColumns es = [] then Infinity
      else Num (max 1 (Min (set (knownColumns es)))))
   \<and> (knownColumns es \<noteq> [] \<and> (\<forall>c\<in>set (knownColumns es). 1 \<le> c)
        \<longrightarrow> leftMostColumn es = Num (Min (set (knownColumns es))))
   \<and> (knownColumns es = []
        \<longrightarrow> applyGroup clearLineMarker lines (ln, es) = lines)"
proof (intro conjI impI)
  show f: "leftMostColumn es =
     (if knownColumns es = [] then Infinity
      else Num (max 1 (Min (set (knownColumns es)))))"
    by (simp add: leftMostColumn_def Math_min_columns)
  {
    assume a: "knownColumns es \<noteq> [] \<and> (\<forall>c\<in>set (knownColumns es). 1 \<le> c)"
    then have "1 \<le> Min (set (knownColumns es))" by simp
    with f a show "leftMostColumn es = Num (Min (set (knownColumns es)))" by simp
  }
  {
    assume "knownColumns es = []"
    with f have "leftMostColumn es = Infinity" by simp
    then show "applyGroup clearLineMarker lines (ln, es) = lines"
      by (simp add: applyGroup_def findCallEnd_Infinity)
  }
qed

theorem anchor_column_witness:
  "knownColumns [\<lparr>filePath = ''a.js'', line = 1, column = Some 5, result = ''1''\<rparr>,
                 \<lparr>filePath = ''a.js'', line = 1, column = None, result = ''2''\<rparr>,
                 \<lparr>filePath = ''a.js'', line = 1, column = Some 3, result = ''3''\<rparr>] = [5, 3]
   \<and> leftMostColumn [\<lparr>filePath = ''a.js'', line = 1, column = Some 5, result = ''1''\<rparr>,
                 \<lparr>filePath = ''a.js'', line = 1, column = None, result = ''2''\<rparr>,
                 \<lparr>filePath = ''a.js'', line = 1, column = Some 3, result = ''3''\<rparr>] = Num 3
   \<and> knownColumns [\<lparr>filePath = ''a.js'', line = 1, column = None, result = ''2''\<rparr>] = []
   \<and> applyGroup ''123e4567-e89b-42d3-a456-426614174000'' [''p(x)'']
         (1, [\<lparr>filePath = ''a.js'', line = 1, column = None, result = ''2''\<rparr>]) = [''p(x)'']"
proof -
  let ?es = "[\<lparr>filePath = ''a.js'', line = 1, column = Some 5, result = ''1''\<rparr>,
                 \<lparr>filePath = ''a.js'', line = 1, column = None, result = ''2''\<rparr>,
                 \<lparr>filePath = ''a.js'', line = 1, column = Some 3, result = ''3''\<rparr>]"
  let ?e0 = "[\<lparr>filePath = ''a.js'', line = 1, column = None, result = ''2''\<rparr>]"
  have k: "knownColumns ?es = [5, 3]" by (simp add: knownColumns_def)
  have k0: "knownColumns ?e0 = []" by (simp add: knownColumns_def)
  from anchor_column [of ?es] k have "leftMostColumn ?es = Num 3" by simp
  moreover from anchor_column [of ?e0 "''123e4567-e89b-42d3-a456-426614174000''" "[''p(x)'']" 1] k0
  have "applyGroup ''123e4567-e89b-42d3-a456-426614174000'' [''p(x)''] (1, ?e0) = [''p(x)'']"
    by simp
  ultimately show ?thesis using k k0 by simp
qed

text \<open>
  A group whose only entry has no column: the anchor is \<open>Infinity\<close> and not 1, so the
  call on the line is not found, where a search from column 1 finds it.
\<close>

theorem anchor_column_not_one:
  "leftMostColumn [\<lparr>filePath = ''a.js'', line = 1, column = None, result = ''2''\<rparr>] \<noteq> Num 1
   \<and> findCallEndLineIndex 1
        (leftMostColumn [\<lparr>filePath = ''a.js'', line = 1, column = None, result = ''2''\<rparr>])
        [''p(x)''] = None
   \<and> findCallEndLineIndex 1 (Num 1) [''p(x)''] = Some 0"
  by code_simp

section \<open>Finding the end of a call\<close>

lemma scanLine_Closed_nonempty: "scanLine s d = Closed \<Longrightarrow> s \<noteq> []"
  by (cases s) auto

lemma scanLines_Some:
  "scanLines ls k c d = Some i \<Longrightarrow> k \<le> i \<and> i < k + length ls \<and> ls ! (i - k) \<noteq> []"
proof (induction ls arbitrary: k c d)
  case Nil
  then show ?case by simp
next
  case (Cons l ls)
  show ?case
  proof (cases "scanLine (drop c l) d")
    case Closed
    with Cons.prems have "i = k" by simp
    moreover from scanLine_Closed_nonempty [OF Closed] have "l \<noteq> []" by auto
    ultimately show ?thesis by simp
  next
    case (Open d')
    with Cons.prems have "scanLines ls (k + 1) 0 d' = Some i" by simp
    from Cons.IH [OF this] show ?thesis by (auto simp: nth_Cons')
  qed
qed

lemma findCallEnd_Some:
  assumes "findCallEndLineIndex ln col lines = Some i"
  shows "i < length lines \<and> lines ! i \<noteq> []"
proof -
  from assms obtain n where n: "n < length lines"
    and s: "scanLines (drop (n + 1) lines) (n + 1) 0 1 = Some i
            \<or> (\<exists>c. scanLines (drop n lines) n c 1 = Some i)"
    by (auto simp: findCallEndLineIndex_def Let_def nth_opt_def
             split: if_splits option.splits)
  from s show ?thesis
  proof
    assume "scanLines (drop (n + 1) lines) (n + 1) 0 1 = Some i"
    from scanLines_Some [OF this] show ?thesis by auto
  next
    assume "\<exists>c. scanLines (drop n lines) n c 1 = Some i"
    then obtain c where "scanLines (drop n lines) n c 1 = Some i" ..
    from scanLines_Some [OF this] n show ?thesis by auto
  qed
qed

lemma includesStr_newline: "includesStr s [CHR 0x0A] \<longleftrightarrow> CHR 0x0A \<in> set s"
proof
  assume "includesStr s [CHR 0x0A]"
  then show "CHR 0x0A \<in> set s" by (auto simp: includesStr_iff)
next
  assume "CHR 0x0A \<in> set s"
  then obtain a b where "s = a @ CHR 0x0A # b" by (auto simp: in_set_conv_decomp)
  then have "s = a @ [CHR 0x0A] @ b" by simp
  then show "includesStr s [CHR 0x0A]" unfolding includesStr_iff by blast
qed

lemma applyGroup_trailing:
  assumes "findCallEndLineIndex ln (leftMostColumn es) lines = Some i"
    and "\<forall>e\<in>set es. \<not> includesStr (result e) [CHR 0x0A]"
  shows "applyGroup clearLineMarker lines (ln, es) =
           lines[i := split_first (lines ! i) trailingCommentStart
                      @ trailingCommentStart @ '' '' @ join '', '' (map result es)]"
proof -
  from findCallEnd_Some [OF assms(1)] have i: "i < length lines" "lines ! i \<noteq> []" by auto
  from assms(2) have "\<not> list_ex (\<lambda>e. includesStr (result e) [CHR 0x0A]) es"
    by (simp add: list_ex_iff)
  with assms(1) i show ?thesis
    by (simp add: applyGroup_def nth_opt_def Let_def)
qed

text \<open>
  Claim C7. When no result of a group contains a line break, the group is rendered as
  one trailing comment on the line where the call ends: the line, cut at an earlier
  trailing marker, followed by \<open> //=> \<close> and the results joined with \<open>, \<close>; no other
  line changes. In particular the entry \<open>{line: 1, column: 1, result: "Hello, world"}\<close>
  (the result with its double quotes) applied to the one-line text
  \<open>p(['Hello','world'].join(', '))\<close> gives that line followed by
  \<open> //=> "Hello, world"\<close>, whatever the 36 code units of the run's marker are.
\<close>

theorem trailing_form:
  "(findCallEndLineIndex ln (leftMostColumn es) lines = Some i
      \<and> (\<forall>e\<in>set es. \<not> includesStr (result e) [CHR 0x0A])
    \<longrightarrow> applyGroup clearLineMarker lines (ln, es) =
          lines[i := split_first (lines ! i) trailingCommentStart
                     @ '' //=> '' @ join '', '' (map result es)])
   \<and> (length clearLineMarker = 36
    \<longrightarrow> applyLogEntriesToFileContent clearLineMarker ''p(['Hello','world'].join(', '))''
          [\<lparr>filePath = ''a.js'', line = 1, column = Some 1,
            result = [CHR 0x22] @ ''Hello, world'' @ [CHR 0x22]\<rparr>]
        = ''p(['Hello','world'].join(', ')) //=> '' @ [CHR 0x22] @ ''Hello, world'' @ [CHR 0x22])"
proof (intro conjI impI)
  assume "findCallEndLineIndex ln (leftMostColumn es) lines = Some i
      \<and> (\<forall>e\<in>set es. \<not> includesStr (result e) [CHR 0x0A])"
  then show "applyGroup clearLineMarker lines (ln, es) =
          lines[i := split_first (lines ! i) trailingCommentStart
                     @ '' //=> '' @ join '', '' (map result es)]"
    using applyGroup_trailing [of ln es lines i clearLineMarker]
    by (simp add: trailingCommentStart_def commentStart_def)
next
  let ?e = "\<lparr>filePath = ''a.js'', line = 1, column = Some 1,
            result = [CHR 0x22] @ ''Hello, world'' @ [CHR 0x22]\<rparr>"
  let ?T = "''p(['Hello','world'].join(', '))''"
  assume len: "length clearLineMarker = 36"
  have g: "lineEntries [?e] = [(1, [?e])]"
    by (simp add: lineEntries_def lineKeys_def isArrayIndex_def)
  have s: "split_char CHR 0x0A ?T = [?T]" by code_simp
  have f: "findCallEndLineIndex 1 (leftMostColumn [?e]) [?T] = Some 0" by code_simp
  have n: "\<forall>e\<in>set [?e]. \<not> includesStr (result e) [CHR 0x0A]"
    by (simp add: includesStr_newline)
  have o: "split_first ?T '' //=>'' = ?T" by code_simp
  from applyGroup_trailing [OF f n, of clearLineMarker]
  have a: "applyGroup clearLineMarker [?T] (1, [?e])
        = [?T @ '' //=> '' @ [CHR 0x22] @ ''Hello, world'' @ [CHR 0x22]]"
    by (simp add: o trailingCommentStart_def commentStart_def)
  have ne: "?T @ '' //=> '' @ [CHR 0x22] @ ''Hello, world'' @ [CHR 0x22] \<noteq> clearLineMarker"
    using len by auto
  show "applyLogEntriesToFileContent clearLineMarker ?T [?e]
        = ''p(['Hello','world'].join(', ')) //=> '' @ [CHR 0x22] @ ''Hello, world'' @ [CHR 0x22]"
    unfolding applyLogEntriesToFileContent_def g s
    using a ne by simp
qed

theorem trailing_form_witness:
  "findCallEndLineIndex 2 (leftMostColumn [\<lparr>filePath = ''a.js'', line = 2, column = Some 1, result = ''1''\<rparr>,
        \<lparr>filePath = ''a.js'', line = 2, column = Some 6, result = ''2''\<rparr>]) [''x'', ''p(a, p(b),'', ''c)''] = Some 2
   \<and> applyGroup ''123e4567-e89b-42d3-a456-426614174000'' [''x'', ''p(a, p(b),'', ''c)'']
       (2, [\<lparr>filePath = ''a.js'', line = 2, column = Some 1, result = ''1''\<rparr>,
            \<lparr>filePath = ''a.js'', line = 2, column = Some 6, result = ''2''\<rparr>])
     = [''x'', ''p(a, p(b),'', ''c) //=> 1, 2'']
   \<and> length ''123e4567-e89b-42d3-a456-426614174000'' = 36
   \<and> applyLogEntriesToFileContent ''123e4567-e89b-42d3-a456-426614174000''
          ''p(['Hello','world'].join(', '))''
          [\<lparr>filePath = ''a.js'', line = 1, column = Some 1,
            result = [CHR 0x22] @ ''Hello, world'' @ [CHR 0x22]\<rparr>]
        = ''p(['Hello','world'].join(', ')) //=> '' @ [CHR 0x22] @ ''Hello, world'' @ [CHR 0x22]"
proof -
  let ?es = "[\<lparr>filePath = ''a.js'', line = 2, column = Some 1, result = ''1''\<rparr>,
        \<lparr>filePath = ''a.js'', line = 2, column = Some 6, result = ''2''\<rparr>]"
  let ?m = "''123e4567-e89b-42d3-a456-426614174000''"
  have f: "findCallEndLineIndex 2 (leftMostColumn ?es) [''x'', ''p(a, p(b),'', ''c)''] = Some 2"
    by code_simp
  have n: "\<forall>e\<in>set ?es. \<not> includesStr (result e) [CHR 0x0A]"
    by (simp add: includesStr_newline)
  have o: "split_first ''c)'' '' //=>'' = ''c)''" by code_simp
  have l: "length ?m = 36" by simp
  from trailing_form [of 2 ?es "[''x'', ''p(a, p(b),'', ''c)'']" 2 ?m] f n l o
  show ?thesis by (simp add: trailingCommentStart_def commentStart_def)
qed

section \<open>Stripping after applying a block annotation\<close>

text \<open>
  Claim C2. Stripping after applying should give back the stripped text,
  \<open>strip(apply(strip(T), E)) = strip(T)\<close>, also for block annotations on indented lines
  and for a call that ends on the last line. The program does not: with one entry
  whose result \<open>{\<newline>  a: 1\<newline>}\<close> has line breaks,
  \<^item> on \<open>  p(x)\<newline>foo\<close> (entry at line 1, column 3) the block is written with the
    indentation of the call before \<open>/*=>\<close>, the removal starts at \<open>/*=>\<close> and ends
    after \<open>*/\<newline>\<close>, and the indentation stays in front of the next line: the
    result is \<open>  p(x)\<newline>  foo\<close>;
  \<^item> on \<open>p(x)\<close> (entry at line 1, column 1) the block ends the text, no line
    break follows its \<open>*/\<close>, and the block is not removed at all.
  Both texts contain no marker, so \<open>strip\<close> leaves them as they are.
\<close>

theorem strip_after_apply_block:
  "stripLogEntriesFromFileContent (''  p(x)'' @ [CHR 0x0A] @ ''foo'') = ''  p(x)'' @ [CHR 0x0A] @ ''foo''
   \<and> stripLogEntriesFromFileContent
        (applyLogEntriesToFileContent ''123e4567-e89b-42d3-a456-426614174000''
           (stripLogEntriesFromFileContent (''  p(x)'' @ [CHR 0x0A] @ ''foo''))
           [\<lparr>filePath = ''a.js'', line = 1, column = Some 3,
             result = ''{'' @ [CHR 0x0A] @ ''  a: 1'' @ [CHR 0x0A] @ ''}''\<rparr>])
       = ''  p(x)'' @ [CHR 0x0A] @ ''  foo''
   \<and> stripLogEntriesFromFileContent ''p(x)'' = ''p(x)''
   \<and> stripLogEntriesFromFileContent
        (applyLogEntriesToFileContent ''123e4567-e89b-42d3-a456-426614174000''
           (stripLogEntriesFromFileContent ''p(x)'')
           [\<lparr>filePath = ''a.js'', line = 1, column = Some 1,
             result = ''{'' @ [CHR 0x0A] @ ''  a: 1'' @ [CHR 0x0A] @ ''}''\<rparr>])
       = ''p(x)'' @ [CHR 0x0A] @ ''/*=> {'' @ [CHR 0x0A] @ ''       a: 1'' @ [CHR 0x0A]
         @ ''     }'' @ [CHR 0x0A] @ ''*/''"
  by code_simp

section \<open>Decoding a log line without a column\<close>

text \<open>
  Claim C3. The column of a log line is optional: \<open>decode\<close> should return an entry with
  an unknown column for a location \<open>path:line\<close>. The program returns none instead:
  \<open>parseFileLocationFromString\<close> sets the column to \<open>undefined\<close> when the segment is
  absent and then returns unless the column is a finite number. \<open>stringifyLogEntry\<close>
  writes exactly this form for an entry without a column, so such an entry is lost on
  the way through the log. (Here \<open>path.relative\<close> and \<open>path.resolve\<close> are taken for the
  directory \<open>/home/u\<close>, and the result \<open>x\<close> needs no escape.)
\<close>

theorem decode_without_column:
  "stringifyLogEntry (\<lambda>base p. drop (length base + 1) p) (\<lambda>s. s) ''/home/u''
      \<lparr>filePath = ''/home/u/a.js'', line = 3, column = None, result = ''x''\<rparr>
     = ''a.js:3 :: x''
   \<and> parseLogEntry (\<lambda>base p. base @ ''/'' @ p) Some ''/home/u'' ''a.js:3 :: x'' = Inr None
   \<and> parseLogEntry (\<lambda>base p. base @ ''/'' @ p) Some ''/home/u'' ''a.js:3:7 :: x''
     = Inr (Some \<lparr>filePath = ''/home/u/a.js'', line = 3, column = Some 7, result = ''x''\<rparr>)"
  by code_simp

section \<open>The call-end search against its specification\<close>

lemma find_sub_char:
  "find_sub [c] s =
     (if c \<in> set s then Some (length (takeWhile (\<lambda>x. x \<noteq> c) s)) else None)"
  by (induction s) auto


lemma scanFlat_append:
  "scanFlat (map (Pair k) s @ rest) d =
     (case scanLine s d of Closed \<Rightarrow> Some k | Open d' \<Rightarrow> scanFlat rest d')"
  by (induction s arbitrary: d) (auto simp: Let_def)

lemma scanLines_flat:
  "k \<le> length lines \<Longrightarrow>
   scanLines (drop k lines) k 0 d =
     scanFlat (concat (map (\<lambda>j. map (Pair j) (lines ! j)) [k ..< length lines])) d"
proof (induction "length lines - k" arbitrary: k d)
  case 0
  then show ?case by simp
next
  case (Suc n)
  then have lt: "k < length lines" by simp
  then have dr: "drop k lines = lines ! k # drop (Suc k) lines"
    by (simp add: Cons_nth_drop_Suc)
  have up: "[k ..< length lines] = k # [Suc k ..< length lines]"
    using lt by (simp add: upt_conv_Cons)
  have ih: "scanLines (drop (Suc k) lines) (Suc k) 0 d' =
     scanFlat (concat (map (\<lambda>j. map (Pair j) (lines ! j)) [Suc k ..< length lines])) d'" for d'
    using Suc.hyps(1) [of "Suc k" d'] Suc.hyps(2) lt by simp
  show ?case
    by (simp add: dr up scanFlat_append ih split: scan_result.splits)
qed

lemma find_map: "List.find P (map f xs) = map_option f (List.find (\<lambda>x. P (f x)) xs)"
  by (induction xs) auto

lemma find_upt_Suc:
  "List.find P [0 ..< Suc n] =
     (if P 0 then Some 0 else map_option Suc (List.find (\<lambda>k. P (Suc k)) [0 ..< n]))"
proof -
  have "[0 ..< Suc n] = 0 # map Suc [0 ..< n]"
    by (simp add: upt_conv_Cons map_Suc_upt del: upt_Suc)
  then show ?thesis by (simp add: find_map del: upt_Suc)
qed

lemma depthFrom_Cons:
  "depthFrom d (ch # cs) =
     depthFrom (if ch = CHR ''('' then d + 1 else if ch = CHR '')'' then d - 1 else d) cs"
  by (simp add: depthFrom_def spec_depth_def)

lemma depthFrom_Nil: "depthFrom d [] = d"
  by (simp add: depthFrom_def spec_depth_def)

lemma scanFlat_find:
  "scanFlat ps d =
     map_option (\<lambda>k. fst (ps ! k))
       (List.find (\<lambda>k. depthFrom d (map snd (take (Suc k) ps)) = 0) [0 ..< length ps])"
proof (induction ps arbitrary: d)
  case Nil
  show ?case by simp
next
  case (Cons x ps)
  obtain j ch where x: "x = (j, ch)" by (cases x)
  let ?d = "if ch = CHR ''('' then d + 1 else if ch = CHR '')'' then d - 1 else d"
  have "List.find (\<lambda>k. depthFrom d (map snd (take (Suc k) (x # ps))) = 0) [0 ..< length (x # ps)]
      = (if ?d = 0 then Some 0
         else map_option Suc
                (List.find (\<lambda>k. depthFrom ?d (map snd (take (Suc k) ps)) = 0) [0 ..< length ps]))"
    unfolding length_Cons find_upt_Suc
    by (simp add: x depthFrom_Cons depthFrom_Nil del: upt_Suc)
  then show ?case
    using Cons.IH [of ?d]
    by (simp add: x Let_def option.map_comp comp_def del: upt_Suc)
qed

lemma scanFlat_spec: "scanFlat ps 1 = spec_callEnd ps"
  by (simp add: scanFlat_find spec_callEnd_def depthFrom_def)

lemma indexOf_openParen:
  "indexOf ln ''('' (clampIndex anchor (length ln)) = spec_openParen ln anchor"
proof -
  have "clampIndex anchor (length ln) \<le> length ln" by (cases anchor) auto
  then show ?thesis
    by (simp add: indexOf_def spec_openParen_def Let_def find_sub_char min_absorb1)
qed

lemma spec_openParen_bound: "spec_openParen ln anchor = Some p \<Longrightarrow> p < length ln"
  using indexOf_bounds(2) [of ln "''(''" "clampIndex anchor (length ln)" p]
  by (simp add: indexOf_openParen)

lemma findCallEnd_spec: "findCallEndLineIndex ln anchor lines = spec_findCallEnd ln anchor lines"
proof (cases "1 \<le> ln \<and> ln \<le> int (length lines)")
  case False
  then show ?thesis
    by (auto simp: findCallEndLineIndex_def spec_findCallEnd_def nth_opt_def Let_def)
next
  case True
  define i where "i = nat (ln - 1)"
  from True have i: "i < length lines" "ln - 1 = int i" by (auto simp: i_def)
  show ?thesis
  proof (cases "spec_openParen (lines ! i) anchor")
    case None
    then show ?thesis using True i
      by (simp add: findCallEndLineIndex_def spec_findCallEnd_def nth_opt_def Let_def
          indexOf_openParen)
  next
    case (Some p)
    from spec_openParen_bound [OF Some] have p: "p < length (lines ! i)" .
    then have ne: "lines ! i \<noteq> []" by auto
    have dr: "drop i lines = lines ! i # drop (Suc i) lines"
      using i by (simp add: Cons_nth_drop_Suc)
    have fl: "scanLines (drop (Suc i) lines) (Suc i) 0 d =
        scanFlat (concat (map (\<lambda>j. map (Pair j) (lines ! j)) [Suc i ..< length lines])) d" for d
      using scanLines_flat [of "Suc i" lines d] i by simp
    have code: "findCallEndLineIndex ln anchor lines =
        (if p + 1 = length (lines ! i)
         then scanLines (drop (i + 1) lines) (i + 1) 0 1
         else scanLines (drop i lines) i (p + 1) 1)"
      using True i Some ne
      by (simp add: findCallEndLineIndex_def nth_opt_def Let_def indexOf_openParen)
    have spec: "spec_findCallEnd ln anchor lines = scanFlat (spec_textAfter lines i p) 1"
      using True i Some by (simp add: spec_findCallEnd_def scanFlat_spec)
    show ?thesis
    proof (cases "p + 1 = length (lines ! i)")
      case True
      then show ?thesis
        unfolding code spec by (simp add: spec_textAfter_def fl)
    next
      case False
      then show ?thesis
        unfolding code spec
        by (simp add: spec_textAfter_def dr fl scanFlat_append split: scan_result.splits)
    qed
  qed
qed


text \<open>
  Claim C6. For every group, \<open>apply\<close> looks on the anchor line for the first \<open>(\<close> at or
  after the anchor column (the column's value is the string index where the search
  starts) and discards the whole group, leaving the lines as they are, when there is
  none on that line. Otherwise it scans from just past that \<open>(\<close> across line boundaries
  with the parenthesis depth starting at 1; the call ends on the line of the first
  position where the depth is back to 0, and the group is discarded when the end of the
  text comes first. That is: \<open>findCallEndLineIndex\<close> computes \<open>spec_findCallEnd\<close>, and
  a group for which it finds nothing changes no line.
\<close>

theorem call_end_search:
  "findCallEndLineIndex ln anchor lines = spec_findCallEnd ln anchor lines
   \<and> (spec_findCallEnd ln (leftMostColumn es) lines = None
        \<longrightarrow> applyGroup clearLineMarker lines (ln, es) = lines)"
proof (intro conjI impI)
  show "findCallEndLineIndex ln anchor lines = spec_findCallEnd ln anchor lines"
    by (rule findCallEnd_spec)
next
  assume "spec_findCallEnd ln (leftMostColumn es) lines = None"
  then have "findCallEndLineIndex ln (leftMostColumn es) lines = None"
    by (simp add: findCallEnd_spec)
  then show "applyGroup clearLineMarker lines (ln, es) = lines"
    by (simp add: applyGroup_def)
qed

theorem call_end_search_witness:
  "findCallEndLineIndex 1 (Num 1) [''p(a,'', ''q(b))'', ''r()''] = Some 1
   \<and> spec_findCallEnd 1 (Num 1) [''p(a,'', ''q(b))'', ''r()''] = Some 1
   \<and> spec_findCallEnd 1
        (leftMostColumn [\<lparr>filePath = ''a.js'', line = 1, column = Some 1, result = ''1''\<rparr>])
        [''p(a,'', ''q(b)''] = None
   \<and> applyGroup ''123e4567-e89b-42d3-a456-426614174000'' [''p(a,'', ''q(b)'']
        (1, [\<lparr>filePath = ''a.js'', line = 1, column = Some 1, result = ''1''\<rparr>])
       = [''p(a,'', ''q(b)'']
   \<and> spec_findCallEnd 2
        (leftMostColumn [\<lparr>filePath = ''a.js'', line = 2, column = Some 3, result = ''1''\<rparr>])
        [''p(a)'', ''x = y''] = None
   \<and> applyGroup ''123e4567-e89b-42d3-a456-426614174000'' [''p(a)'', ''x = y'']
        (2, [\<lparr>filePath = ''a.js'', line = 2, column = Some 3, result = ''1''\<rparr>])
       = [''p(a)'', ''x = y'']"
proof -
  let ?m = "''123e4567-e89b-42d3-a456-426614174000''"
  let ?e1 = "[\<lparr>filePath = ''a.js'', line = 1, column = Some 1, result = ''1''\<rparr>]"
  let ?e2 = "[\<lparr>filePath = ''a.js'', line = 2, column = Some 3, result = ''1''\<rparr>]"
  have a: "spec_findCallEnd 1 (Num 1) [''p(a,'', ''q(b))'', ''r()''] = Some 1" by code_simp
  have b: "spec_findCallEnd 1 (leftMostColumn ?e1) [''p(a,'', ''q(b)''] = None" by code_simp
  have c: "spec_findCallEnd 2 (leftMostColumn ?e2) [''p(a)'', ''x = y''] = None" by code_simp
  from call_end_search [of 1 "Num 1" "[''p(a,'', ''q(b))'', ''r()'']"] a
  have a': "findCallEndLineIndex 1 (Num 1) [''p(a,'', ''q(b))'', ''r()''] = Some 1" by simp
  from call_end_search [of 1 "Num 1" "[''p(a,'', ''q(b)'']" ?e1 ?m] b
  have b': "applyGroup ?m [''p(a,'', ''q(b)''] (1, ?e1) = [''p(a,'', ''q(b)'']" by blast
  from call_end_search [of 2 "Num 1" "[''p(a)'', ''x = y'']" ?e2 ?m] c
  have c': "applyGroup ?m [''p(a)'', ''x = y''] (2, ?e2) = [''p(a)'', ''x = y'']" by blast
  from a a' b b' c c' show ?thesis by blast
qed

section \<open>Numbers as decimal text\<close>

lemma digit_cases:
  "k < 10 \<Longrightarrow> k = 0 \<or> k = 1 \<or> k = 2 \<or> k = 3 \<or> k = 4 \<or> k = 5 \<or> k = 6 \<or> k = 7 \<or> k = 8
     \<or> k = (9::nat)"
  by arith



lemma digit_char_cases:
  "k < 10 \<Longrightarrow> ''0123456789'' ! k \<in> set ''0123456789''"
proof -
  assume "k < 10"
  from digit_cases [OF this] show ?thesis
    by (elim disjE) simp_all
qed

lemma showNat_digits: "ch \<in> set (showNat n) \<Longrightarrow> ch \<in> set ''0123456789''"
proof (induction n arbitrary: ch rule: showNat.induct)
  case (1 n)
  show ?case
  proof (cases "n < 10")
    case True
    with "1.prems" have "ch = ''0123456789'' ! n" by (simp add: showNat.simps [of n])
    with True digit_char_cases [of n] show ?thesis by simp
  next
    case False
    with "1.prems" have "ch \<in> set (showNat (n div 10)) \<or> ch = ''0123456789'' ! (n mod 10)"
      by (auto simp: showNat.simps [of n])
    then show ?thesis
    proof
      assume "ch \<in> set (showNat (n div 10))"
      with "1.IH" False show ?thesis by simp
    next
      assume "ch = ''0123456789'' ! (n mod 10)"
      with digit_char_cases [of "n mod 10"] show ?thesis by simp
    qed
  qed
qed

lemma showNat_nonempty: "showNat n \<noteq> []"
  by (subst showNat.simps) simp





lemma showNat_hd: "hd (showNat n) \<in> set ''0123456789''"
  using showNat_digits [of "hd (showNat n)" n] showNat_nonempty [of n] by simp

lemma showNat_no_space: "dropWhile isWhiteSpace (showNat n) = showNat n"
proof -
  have "\<not> isWhiteSpace (hd (showNat n))"
    using showNat_hd [of n] by (auto simp: isWhiteSpace_def)
  then show ?thesis using showNat_nonempty [of n] by (cases "showNat n") auto
qed








section \<open>The log protocol: locations and log lines\<close>












section \<open>The location of the caller in a stack trace\<close>




lemma startsWith_append: "startsWith (pat @ r) pat"
  by (simp add: startsWith_def)













section \<open>Applying trailing annotations twice\<close>































end
